theory Spec2Isabelle
  imports Main
begin

section \<open>The privacy template of entc (entc/gen/template/privacy.tmpl)\<close>

text \<open>
  The template generates the package \<open>privacy\<close>: three decision values, their
  formatted variants, a decision cache carried by the \<open>context.Context\<close>, the
  evaluation of a query or mutation policy, and rule adapters. The Go code is
  embedded as HOL functions. A rule may have effects (it may record that it ran,
  or change the query it is given), so a rule is a function that takes the state
  of the program and returns its decision with the new state; the state is a type
  variable, and "a rule was not invoked" reads "the state is what it was".
\<close>

subsection \<open>Operations handed to the rules\<close>

text \<open>
  A rule receives an \<open>ent.Query\<close> or an \<open>ent.Mutation\<close>: an interface value, of
  which the template uses the dynamic type (the type assertions of the per-entity
  adapters, the verb \<open>%T\<close>) and, for a mutation, the operation \<open>m.Op()\<close>. The
  pointer tells two builders of one type apart. \<open>ent.Op\<close> is an unsigned integer.
\<close>

type_synonym addr = nat

type_synonym Op = nat

record Query =
  query_type :: string
  query_ptr :: addr

record Mutation =
  mutation_type :: string
  mutation_ptr :: addr
  mutation_Op :: Op

subsection \<open>Error values\<close>

text \<open>
  The errors of the package are made by \<open>errors.New\<close> (a \<open>*errors.errorString\<close>)
  and by \<open>fmt.Errorf\<close> (a \<open>*errors.errorString\<close>, a \<open>*fmt.wrapError\<close> or a
  \<open>*fmt.wrapErrors\<close>). Each is a pointer, and Go compares two of them by address,
  so each value carries the address of its allocation. The text of a message made
  by \<open>fmt\<close> is kept as the format string and the operands given to the printer.
  An \<open>error\<close> interface value is an \<open>error option\<close>, \<open>None\<close> for \<open>nil\<close>.
\<close>

datatype error =
    ErrorString addr message
  | WrapError addr message "error option"
  | WrapErrors addr message "error list"
and message =
    Text string
  | Sprintf string "operand list"
and operand =
    ErrorOp error
  | NilOp
  | IntOp int
  | StringOp string
  | OpOp Op
  | QueryOp Query
  | MutationOp Mutation

text \<open>\<open>err == target\<close> on two interface values holding pointers: the same dynamic
  type and the same address.\<close>

fun same_pointer :: "error \<Rightarrow> error \<Rightarrow> bool" where
  "same_pointer (ErrorString a _) (ErrorString b _) = (a = b)"
| "same_pointer (WrapError a _ _) (WrapError b _ _) = (a = b)"
| "same_pointer (WrapErrors a _ _) (WrapErrors b _ _) = (a = b)"
| "same_pointer _ _ = False"

text \<open>
  \<open>errors.Is\<close> of the standard library: \<open>is\<close> walks the chain of \<open>Unwrap\<close>,
  through every error of an \<open>Unwrap() []error\<close>, until one is the target. None of the
  three types has an \<open>Is\<close> method, and a pointer is comparable.
\<close>

fun is_chain :: "error \<Rightarrow> error \<Rightarrow> bool" where
  "is_chain (ErrorString a m) target = same_pointer (ErrorString a m) target"
| "is_chain (WrapError a m w) target =
     (same_pointer (WrapError a m w) target \<or>
      (case w of None \<Rightarrow> False | Some e \<Rightarrow> is_chain e target))"
| "is_chain (WrapErrors a m es) target =
     (same_pointer (WrapErrors a m es) target \<or> list_ex (\<lambda>e. is_chain e target) es)"

definition errors_Is :: "error option \<Rightarrow> error option \<Rightarrow> bool" where
  "errors_Is err target =
     (case err of
        None \<Rightarrow> err = target
      | Some e \<Rightarrow> (case target of None \<Rightarrow> err = target | Some t \<Rightarrow> is_chain e t))"

text \<open>The three package variables, each allocated once by \<open>errors.New\<close>.\<close>

definition Allow :: error where
  "Allow = ErrorString 0 (Text ''ent/privacy: allow rule'')"

definition Deny :: error where
  "Deny = ErrorString 1 (Text ''ent/privacy: deny rule'')"

definition Skip :: error where
  "Skip = ErrorString 2 (Text ''ent/privacy: skip rule'')"

lemma errors_Is_nil [simp]: "errors_Is None (Some t) = False"
  by (simp add: errors_Is_def)

subsection \<open>The decision carried by a context\<close>

text \<open>
  A \<open>context.Context\<close> is the chain of the values given to it: \<open>WithValue\<close>
  derives a context from its parent, and \<open>Value\<close> returns the nearest value of a
  key. \<open>decisionCtxKey\<close> is the unexported key type of the package; every other
  key a program uses is an \<open>OtherKey\<close>. A value is an error or something else.
\<close>

datatype ctx_key = decisionCtxKey | OtherKey nat

datatype ctx_value = ErrorValue error | OtherValue nat

datatype Context = Background | WithValue Context ctx_key ctx_value

fun Value :: "Context \<Rightarrow> ctx_key \<Rightarrow> ctx_value option" where
  "Value Background k = None"
| "Value (WithValue parent key val) k = (if key = k then Some val else Value parent k)"

definition DecisionContext :: "Context \<Rightarrow> error option \<Rightarrow> Context" where
  "DecisionContext parent decision =
     (case decision of
        None \<Rightarrow> parent
      | Some d \<Rightarrow>
          if errors_Is decision (Some Skip) then parent
          else WithValue parent decisionCtxKey (ErrorValue d))"

text \<open>\<open>decision, ok := ctx.Value(decisionCtxKey{}).(error)\<close>: the assertion fails on
  a missing value and on a value that is not an error, leaving \<open>nil, false\<close>.\<close>

definition decisionFromContext :: "Context \<Rightarrow> error option \<times> bool" where
  "decisionFromContext ctx =
     (case Value ctx decisionCtxKey of
        Some (ErrorValue decision) \<Rightarrow>
          (if errors_Is (Some decision) (Some Allow) then None else Some decision, True)
      | _ \<Rightarrow> (None, False))"

subsection \<open>Policies\<close>

type_synonym 's QueryRule = "Context \<Rightarrow> Query \<Rightarrow> 's \<Rightarrow> error option \<times> 's"

type_synonym 's QueryPolicy = "'s QueryRule list"

type_synonym 's MutationRule = "Context \<Rightarrow> Mutation \<Rightarrow> 's \<Rightarrow> error option \<times> 's"

type_synonym 's MutationPolicy = "'s MutationRule list"

text \<open>The loop \<open>for _, rule := range policy\<close> of \<open>EvalQuery\<close>, with its switch.\<close>

fun EvalQuery_rules :: "'s QueryPolicy \<Rightarrow> Context \<Rightarrow> Query \<Rightarrow> 's \<Rightarrow> error option \<times> 's" where
  "EvalQuery_rules [] ctx q s = (None, s)"
| "EvalQuery_rules (rule # policy) ctx q s =
     (case rule ctx q s of
        (decision, s') \<Rightarrow>
          if decision = None \<or> errors_Is decision (Some Skip) then EvalQuery_rules policy ctx q s'
          else if errors_Is decision (Some Allow) then (None, s')
          else (decision, s'))"

definition EvalQuery :: "'s QueryPolicy \<Rightarrow> Context \<Rightarrow> Query \<Rightarrow> 's \<Rightarrow> error option \<times> 's" where
  "EvalQuery policy ctx q s =
     (case decisionFromContext ctx of
        (decision, True) \<Rightarrow> (decision, s)
      | (_, False) \<Rightarrow> EvalQuery_rules policy ctx q s)"

definition QueryRuleFunc_EvalQuery :: "'s QueryRule \<Rightarrow> 's QueryRule" where
  "QueryRuleFunc_EvalQuery f ctx q s = f ctx q s"

text \<open>The loop of \<open>EvalMutation\<close>.\<close>

fun EvalMutation_rules ::
  "'s MutationPolicy \<Rightarrow> Context \<Rightarrow> Mutation \<Rightarrow> 's \<Rightarrow> error option \<times> 's" where
  "EvalMutation_rules [] ctx m s = (None, s)"
| "EvalMutation_rules (rule # policy) ctx m s =
     (case rule ctx m s of
        (decision, s') \<Rightarrow>
          if decision = None \<or> errors_Is decision (Some Skip) then EvalMutation_rules policy ctx m s'
          else if errors_Is decision (Some Allow) then (None, s')
          else (decision, s'))"

definition EvalMutation ::
  "'s MutationPolicy \<Rightarrow> Context \<Rightarrow> Mutation \<Rightarrow> 's \<Rightarrow> error option \<times> 's" where
  "EvalMutation policy ctx m s =
     (case decisionFromContext ctx of
        (decision, True) \<Rightarrow> (decision, s)
      | (_, False) \<Rightarrow> EvalMutation_rules policy ctx m s)"

definition MutationRuleFunc_EvalMutation :: "'s MutationRule \<Rightarrow> 's MutationRule" where
  "MutationRuleFunc_EvalMutation f ctx m s = f ctx m s"

text \<open>\<open>Policy\<close> groups a query policy and a mutation policy and forwards to them.\<close>

record 's Policy =
  Query_policy :: "'s QueryPolicy"
  Mutation_policy :: "'s MutationPolicy"

definition Policy_EvalQuery :: "'s Policy \<Rightarrow> Context \<Rightarrow> Query \<Rightarrow> 's \<Rightarrow> error option \<times> 's" where
  "Policy_EvalQuery policy ctx q s = EvalQuery (Query_policy policy) ctx q s"

definition Policy_EvalMutation ::
  "'s Policy \<Rightarrow> Context \<Rightarrow> Mutation \<Rightarrow> 's \<Rightarrow> error option \<times> 's" where
  "Policy_EvalMutation policy ctx m s = EvalMutation (Mutation_policy policy) ctx m s"

text \<open>\<open>fixedDecision\<close>, behind \<open>AlwaysAllowRule\<close> and \<open>AlwaysDenyRule\<close>.\<close>

definition fixedDecision_EvalQuery :: "error option \<Rightarrow> 's QueryRule" where
  "fixedDecision_EvalQuery decision ctx q s = (decision, s)"

definition fixedDecision_EvalMutation :: "error option \<Rightarrow> 's MutationRule" where
  "fixedDecision_EvalMutation decision ctx m s = (decision, s)"

definition AlwaysAllowRule :: "'s QueryRule \<times> 's MutationRule" where
  "AlwaysAllowRule = (fixedDecision_EvalQuery (Some Allow), fixedDecision_EvalMutation (Some Allow))"

definition AlwaysDenyRule :: "'s QueryRule \<times> 's MutationRule" where
  "AlwaysDenyRule = (fixedDecision_EvalQuery (Some Deny), fixedDecision_EvalMutation (Some Deny))"

text \<open>
  \<open>OnMutationOperation\<close>. The method \<open>Is\<close> of \<open>ent.Op\<close> is declared in the package
  \<open>ent\<close>, outside the template, and is taken as the parameter \<open>Op_Is\<close>:
  \<open>Op_Is o1 o2\<close> is \<open>o1.Is(o2)\<close>.
\<close>

definition OnMutationOperation ::
  "(Op \<Rightarrow> Op \<Rightarrow> bool) \<Rightarrow> 's MutationRule \<Rightarrow> Op \<Rightarrow> 's MutationRule" where
  "OnMutationOperation Op_Is rule op =
     MutationRuleFunc_EvalMutation
       (\<lambda>ctx m s. if Op_Is (mutation_Op m) op then rule ctx m s else (Some Skip, s))"

text \<open>
  What the rules at the head of a policy leave behind when each of them, run in
  order from the state \<open>s\<close>, returns \<open>nil\<close> or an error that is \<open>Skip\<close>: the state
  after the last of them. \<open>None\<close> when one of them decides otherwise.
\<close>

fun skipped :: "(Context \<Rightarrow> 'o \<Rightarrow> 's \<Rightarrow> error option \<times> 's) list \<Rightarrow> Context \<Rightarrow> 'o \<Rightarrow> 's \<Rightarrow> 's option" where
  "skipped [] ctx x s = Some s"
| "skipped (rule # rules) ctx x s =
     (case rule ctx x s of
        (decision, s') \<Rightarrow>
          if decision = None \<or> errors_Is decision (Some Skip) then skipped rules ctx x s'
          else None)"

text \<open>The state after every rule of a list has run, in order.\<close>

definition run_all :: "(Context \<Rightarrow> 'o \<Rightarrow> 's \<Rightarrow> error option \<times> 's) list \<Rightarrow> Context \<Rightarrow> 'o \<Rightarrow> 's \<Rightarrow> 's" where
  "run_all rules ctx x s = foldl (\<lambda>s' rule. snd (rule ctx x s')) s rules"

subsection \<open>The operands that \<open>fmt.Errorf\<close> wraps\<close>

text \<open>
  \<open>Allowf\<close>, \<open>Denyf\<close> and \<open>Skipf\<close> call \<open>fmt.Errorf\<close> of the standard library, and
  which error the result wraps is decided by the scan of the format string in
  \<open>(*pp).doPrintf\<close>: every directive takes the operand at \<open>argNum\<close>, and a \<open>%w\<close>
  records its operand's index in \<open>wrappedErrs\<close>. The functions below follow that
  scan (Go 1.20 and later) for what it does to \<open>argNum\<close>, \<open>reordered\<close>,
  \<open>goodArgNum\<close> and \<open>wrappedErrs\<close>; the text written to the buffer is not
  computed. A format string is a sequence of bytes. Where Go keeps an index \<open>i\<close>
  into the format, the functions keep the rest of the format from \<open>i\<close> on.
\<close>

definition tooLarge :: "int \<Rightarrow> bool" where
  "tooLarge x = (x > 1000000 \<or> x < - 1000000)"

definition is_digit :: "char \<Rightarrow> bool" where
  "is_digit c = (48 \<le> (of_char c :: nat) \<and> (of_char c :: nat) \<le> 57)"

definition is_lower :: "char \<Rightarrow> bool" where
  "is_lower c = (97 \<le> (of_char c :: nat) \<and> (of_char c :: nat) \<le> 122)"

definition is_flag :: "char \<Rightarrow> bool" where
  "is_flag c = (c = CHR ''#'' \<or> c = CHR ''0'' \<or> c = CHR ''+'' \<or> c = CHR ''-'' \<or> c = CHR '' '')"

text \<open>\<open>parsenum(s, start, end)\<close> on the bytes from \<open>start\<close> to \<open>end\<close>: the number, whether
  there is one, and the bytes left. A number that is too large gives up at \<open>end\<close>.\<close>

fun parsenum_from :: "int \<Rightarrow> bool \<Rightarrow> string \<Rightarrow> int \<times> bool \<times> string" where
  "parsenum_from num isnum [] = (num, isnum, [])"
| "parsenum_from num isnum (c # cs) =
     (if is_digit c then
        (if tooLarge num then (0, False, [])
         else parsenum_from (num * 10 + (int (of_char c) - 48)) True cs)
      else (num, isnum, c # cs))"

definition parsenum :: "string \<Rightarrow> int \<times> bool \<times> string" where
  "parsenum s = parsenum_from 0 False s"

text \<open>\<open>parseArgNumber(format)\<close>, with \<open>[\<close> at \<open>format[0]\<close>: the index, the number of bytes to
  consume, and whether the number parsed.\<close>

definition parseArgNumber :: "string \<Rightarrow> int \<times> nat \<times> bool" where
  "parseArgNumber format =
     (if length format < 3 then (0, 1, False)
      else
        (let body = takeWhile (\<lambda>c. c \<noteq> CHR '']'') (tl format); i = Suc (length body)
         in if i < length format then
              (case parsenum body of
                 (width, ok, rest) \<Rightarrow>
                   if \<not> ok \<or> rest \<noteq> [] then (0, i + 1, False) else (width - 1, i + 1, True))
            else (0, 1, False)))"

text \<open>The variables of the scan: \<open>argNum\<close> and \<open>afterIndex\<close> are locals of \<open>doPrintf\<close>,
  the other three are fields of the printer.\<close>

record pp =
  argNum :: nat
  afterIndex :: bool
  reordered :: bool
  goodArgNum :: bool
  wrappedErrs :: "nat list"

text \<open>\<open>argNum, i, afterIndex = p.argNumber(argNum, format, i, len(a))\<close>.\<close>

definition argNumber :: "pp \<Rightarrow> string \<Rightarrow> nat \<Rightarrow> pp \<times> string" where
  "argNumber p format numArgs =
     (case format of
        [] \<Rightarrow> (p\<lparr>afterIndex := False\<rparr>, format)
      | c # _ \<Rightarrow>
          if c \<noteq> CHR ''['' then (p\<lparr>afterIndex := False\<rparr>, format)
          else
            (case parseArgNumber format of
               (index, wid, ok) \<Rightarrow>
                 if ok \<and> 0 \<le> index \<and> index < int numArgs then
                   (p\<lparr>reordered := True, argNum := nat index, afterIndex := True\<rparr>, drop wid format)
                 else
                   (p\<lparr>reordered := True, goodArgNum := False, afterIndex := ok\<rparr>, drop wid format)))"

text \<open>\<open>intFromArg(a, argNum)\<close>, for a width or precision \<open>*\<close>: the new \<open>argNum\<close>. The
  number read only shapes the text.\<close>

definition intFromArg :: "nat \<Rightarrow> nat \<Rightarrow> nat" where
  "intFromArg numArgs n = (if n < numArgs then n + 1 else n)"

text \<open>The width of a directive: \<open>*\<close> or a number.\<close>

definition width_part :: "pp \<Rightarrow> string \<Rightarrow> nat \<Rightarrow> pp \<times> string" where
  "width_part p format numArgs =
     (case format of
        [] \<Rightarrow> (p, [])
      | c # cs \<Rightarrow>
          if c = CHR ''*'' then (p\<lparr>argNum := intFromArg numArgs (argNum p), afterIndex := False\<rparr>, cs)
          else
            (case parsenum format of
               (wid, widPresent, rest) \<Rightarrow>
                 (if afterIndex p \<and> widPresent then p\<lparr>goodArgNum := False\<rparr> else p, rest)))"

text \<open>The precision of a directive: a \<open>.\<close> and then an index, \<open>*\<close> or a number.\<close>

definition precision_part :: "pp \<Rightarrow> string \<Rightarrow> nat \<Rightarrow> pp \<times> string" where
  "precision_part p format numArgs =
     (case format of
        [] \<Rightarrow> (p, [])
      | c # cs \<Rightarrow>
          if c = CHR ''.'' then
            (case argNumber (if afterIndex p then p\<lparr>goodArgNum := False\<rparr> else p) cs numArgs of
               (p1, cs1) \<Rightarrow>
                 (case cs1 of
                    [] \<Rightarrow> (p1, [])
                  | d # ds \<Rightarrow>
                      if d = CHR ''*'' then
                        (p1\<lparr>argNum := intFromArg numArgs (argNum p1), afterIndex := False\<rparr>, ds)
                      else (p1, snd (snd (parsenum cs1)))))
          else (p, format))"

text \<open>The verb of a directive and the operand it takes. A verb of several bytes is
  read by its first byte: the bytes after it are not \<open>%\<close> and take no operand.\<close>

definition verb_part :: "pp \<Rightarrow> string \<Rightarrow> nat \<Rightarrow> pp \<times> string" where
  "verb_part p format numArgs =
     (case format of
        [] \<Rightarrow> (p, [])
      | verb # rest \<Rightarrow>
          if verb = CHR ''%'' then (p, rest)
          else if \<not> goodArgNum p then (p, rest)
          else if argNum p \<ge> numArgs then (p, rest)
          else if verb = CHR ''w'' then
            (p\<lparr>wrappedErrs := wrappedErrs p @ [argNum p], argNum := argNum p + 1\<rparr>, rest)
          else (p\<lparr>argNum := argNum p + 1\<rparr>, rest))"

text \<open>A directive that is more than flags and a verb.\<close>

definition complex_directive :: "pp \<Rightarrow> string \<Rightarrow> nat \<Rightarrow> pp \<times> string" where
  "complex_directive p format numArgs =
     (case argNumber p format numArgs of
        (p1, f1) \<Rightarrow>
          (case width_part p1 f1 numArgs of
             (p2, f2) \<Rightarrow>
               (case precision_part p2 f2 numArgs of
                  (p3, f3) \<Rightarrow>
                    (case (if \<not> afterIndex p3 then argNumber p3 f3 numArgs else (p3, f3)) of
                       (p4, f4) \<Rightarrow> verb_part p4 f4 numArgs))))"

text \<open>One directive, from the byte after its \<open>%\<close>: the flags, then the fast path of a
  lower-case verb with an operand left, or the rest of the directive.\<close>

definition directive :: "pp \<Rightarrow> string \<Rightarrow> nat \<Rightarrow> pp \<times> string" where
  "directive p format numArgs =
     (case dropWhile is_flag format of
        [] \<Rightarrow> complex_directive (p\<lparr>goodArgNum := True\<rparr>) [] numArgs
      | c # cs \<Rightarrow>
          if is_lower c \<and> argNum p < numArgs then
            (p\<lparr>goodArgNum := True,
               wrappedErrs := (if c = CHR ''w'' then wrappedErrs p @ [argNum p] else wrappedErrs p),
               argNum := argNum p + 1\<rparr>, cs)
          else complex_directive (p\<lparr>goodArgNum := True\<rparr>) (c # cs) numArgs)"

text \<open>No part of a directive gives back more of the format than it was given, so the
  scan below ends.\<close>

lemma parsenum_from_length: "length (snd (snd (parsenum_from num isnum s))) \<le> length s"
  by (induction s arbitrary: num isnum) (auto intro: le_SucI)

lemma parsenum_length: "length (snd (snd (parsenum s))) \<le> length s"
  by (simp add: parsenum_def parsenum_from_length)

lemma argNumber_length: "length (snd (argNumber p f n)) \<le> length f"
  by (auto simp: argNumber_def split: list.splits prod.splits)

lemma width_part_length: "length (snd (width_part p f n)) \<le> length f"
  using parsenum_length [of f]
  by (auto simp: width_part_def split: list.splits prod.splits)

lemma precision_part_length: "length (snd (precision_part p f n)) \<le> length f"
proof (cases f)
  case Nil
  then show ?thesis by (simp add: precision_part_def)
next
  case (Cons c cs)
  obtain p1 cs1 where a: "argNumber (if afterIndex p then p\<lparr>goodArgNum := False\<rparr> else p) cs n = (p1, cs1)"
    by (cases "argNumber (if afterIndex p then p\<lparr>goodArgNum := False\<rparr> else p) cs n")
  have l1: "length cs1 \<le> length cs"
    using argNumber_length [of "if afterIndex p then p\<lparr>goodArgNum := False\<rparr> else p" cs n] a by simp
  have l2: "length (snd (snd (parsenum cs1))) \<le> length cs1"
    by (rule parsenum_length)
  show ?thesis
    using Cons a l1 l2 by (auto simp: precision_part_def split: list.splits)
qed

lemma verb_part_length: "length (snd (verb_part p f n)) \<le> length f"
  by (auto simp: verb_part_def split: list.splits)

lemma complex_directive_length: "length (snd (complex_directive p f n)) \<le> length f"
proof -
  obtain p1 f1 where a: "argNumber p f n = (p1, f1)" by (cases "argNumber p f n")
  obtain p2 f2 where b: "width_part p1 f1 n = (p2, f2)" by (cases "width_part p1 f1 n")
  obtain p3 f3 where c: "precision_part p2 f2 n = (p3, f3)" by (cases "precision_part p2 f2 n")
  obtain p4 f4 where d: "(if \<not> afterIndex p3 then argNumber p3 f3 n else (p3, f3)) = (p4, f4)"
    by (cases "(if \<not> afterIndex p3 then argNumber p3 f3 n else (p3, f3))")
  have "length f1 \<le> length f" using argNumber_length [of p f n] a by simp
  moreover have "length f2 \<le> length f1" using width_part_length [of p1 f1 n] b by simp
  moreover have "length f3 \<le> length f2" using precision_part_length [of p2 f2 n] c by simp
  moreover have "length f4 \<le> length f3" using argNumber_length [of p3 f3 n] d by (auto split: if_splits)
  moreover have "length (snd (verb_part p4 f4 n)) \<le> length f4" by (rule verb_part_length)
  ultimately show ?thesis
    using a b c d by (simp add: complex_directive_def)
qed

lemma dropWhile_length: "length (dropWhile P xs) \<le> length xs"
  by (induction xs) auto

lemma directive_length: "length (snd (directive p f n)) \<le> length f"
proof (cases "dropWhile is_flag f")
  case Nil
  have "length (snd (complex_directive (p\<lparr>goodArgNum := True\<rparr>) [] n)) \<le> length ([] :: string)"
    by (rule complex_directive_length)
  then show ?thesis unfolding directive_def Nil by simp
next
  case (Cons c cs)
  have l: "length (c # cs) \<le> length f" using dropWhile_length [of is_flag f] Cons by simp
  have "length (snd (complex_directive (p\<lparr>goodArgNum := True\<rparr>) (c # cs) n)) \<le> length (c # cs)"
    by (rule complex_directive_length)
  with l Cons show ?thesis by (auto simp: directive_def)
qed

lemma directive_rest: "(p', rest) = directive p cs n \<Longrightarrow> length rest < Suc (length cs)"
  using directive_length [of p cs n] by (metis le_imp_less_Suc snd_conv)

text \<open>The loop of \<open>doPrintf\<close>: text up to the next \<open>%\<close>, then one directive.\<close>

function doPrintf :: "string \<Rightarrow> nat \<Rightarrow> pp \<Rightarrow> pp" where
  "doPrintf [] numArgs p = p"
| "doPrintf (c # cs) numArgs p =
     (if c \<noteq> CHR ''%'' then doPrintf cs numArgs p
      else (case directive p cs numArgs of (p', rest) \<Rightarrow> doPrintf rest numArgs p'))"
  by pat_completeness auto
termination
  by (relation "measure (\<lambda>(f, n, p). length f)") (auto intro: directive_rest)

declare doPrintf.simps [simp del]

text \<open>The printer as \<open>Errorf\<close> starts it.\<close>

definition newPrinter :: pp where
  "newPrinter =
     \<lparr>argNum = 0, afterIndex = False, reordered = False, goodArgNum = True, wrappedErrs = []\<rparr>"

text \<open>\<open>a[argNum].(error)\<close>. The scan records an index only below \<open>len(a)\<close>
  (\<open>doPrintf_wrappedErrs_bound\<close> below).\<close>

definition operand_error :: "operand list \<Rightarrow> nat \<Rightarrow> error option" where
  "operand_error a n =
     (if n < length a then (case a ! n of ErrorOp e \<Rightarrow> Some e | _ \<Rightarrow> None) else None)"

text \<open>The errors of a \<open>*fmt.wrapErrors\<close>: an index equal to the one before it is
  passed over, and so is an operand that is not an error.\<close>

fun wrapped_errors :: "operand list \<Rightarrow> nat option \<Rightarrow> nat list \<Rightarrow> error list" where
  "wrapped_errors a prev [] = []"
| "wrapped_errors a prev (n # ns) =
     (if prev = Some n then wrapped_errors a (Some n) ns
      else (case operand_error a n of
              Some e \<Rightarrow> e # wrapped_errors a (Some n) ns
            | None \<Rightarrow> wrapped_errors a (Some n) ns))"

text \<open>\<open>fmt.Errorf(format, a...)\<close>, allocating its result at \<open>ptr\<close>: an
  \<open>errors.New\<close> when no \<open>%w\<close> took an operand, a \<open>*fmt.wrapError\<close> for one, a
  \<open>*fmt.wrapErrors\<close> for several.\<close>

definition Errorf :: "addr \<Rightarrow> string \<Rightarrow> operand list \<Rightarrow> error" where
  "Errorf ptr format a =
     (let p = doPrintf format (length a) newPrinter; s = Sprintf format a
      in case wrappedErrs p of
           [] \<Rightarrow> ErrorString ptr s
         | [n] \<Rightarrow> WrapError ptr s (operand_error a n)
         | _ \<Rightarrow>
             WrapErrors ptr s
               (wrapped_errors a None
                  (if reordered p then sort (wrappedErrs p) else wrappedErrs p)))"

subsection \<open>Formatted decisions and the adapters that use them\<close>


definition Denyf :: "addr \<Rightarrow> string \<Rightarrow> operand list \<Rightarrow> error" where
  "Denyf ptr format a = Errorf ptr (format @ '': %w'') (a @ [ErrorOp Deny])"

definition Skipf :: "addr \<Rightarrow> string \<Rightarrow> operand list \<Rightarrow> error" where
  "Skipf ptr format a = Errorf ptr (format @ '': %w'') (a @ [ErrorOp Skip])"

definition DenyMutationOperationRule ::
  "(Op \<Rightarrow> Op \<Rightarrow> bool) \<Rightarrow> addr \<Rightarrow> Op \<Rightarrow> 's MutationRule" where
  "DenyMutationOperationRule Op_Is ptr op =
     OnMutationOperation Op_Is
       (MutationRuleFunc_EvalMutation
          (\<lambda>_ m s. (Some (Denyf ptr ''ent/privacy: operation %s is not allowed''
                             [OpOp (mutation_Op m)]), s)))
       op"

text \<open>
  The template writes one pair of adapters for each node \<open>$n\<close> of the graph:
  \<open>$type\<close> is \<open>printf "*%s.%s" $pkg $n.QueryName\<close> for the query adapter and the same
  with \<open>$n.MutationName\<close> for the mutation adapter. The type assertion
  \<open>q.($type)\<close> holds when the dynamic type of \<open>q\<close> is \<open>$type\<close>. \<open>ptr\<close> is where a
  \<open>Denyf\<close> allocates its error.
\<close>

definition node_type :: "string \<Rightarrow> string \<Rightarrow> string" where
  "node_type pkg name = ''*'' @ pkg @ ''.'' @ name"

definition NodeQueryRuleFunc_EvalQuery :: "string \<Rightarrow> addr \<Rightarrow> 's QueryRule \<Rightarrow> 's QueryRule" where
  "NodeQueryRuleFunc_EvalQuery ty ptr f ctx q s =
     (if query_type q = ty then f ctx q s
      else (Some (Denyf ptr (''ent/privacy: unexpected query type %T, expect '' @ ty) [QueryOp q]), s))"

definition NodeMutationRuleFunc_EvalMutation ::
  "string \<Rightarrow> addr \<Rightarrow> 's MutationRule \<Rightarrow> 's MutationRule" where
  "NodeMutationRuleFunc_EvalMutation ty ptr f ctx m s =
     (if mutation_type m = ty then f ctx m s
      else (Some (Denyf ptr (''ent/privacy: unexpected mutation type %T, expect '' @ ty)
                    [MutationOp m]), s))"

subsection \<open>Rules and operations of the scenarios\<close>

text \<open>
  Rules that record their name in a log when they run, as a test of the package
  would write them, and a query and a mutation to give them. The state is the log.
\<close>

definition RuleA :: "Context \<Rightarrow> 'o \<Rightarrow> string list \<Rightarrow> error option \<times> string list" where
  "RuleA ctx x log = (Some Skip, log @ [''RuleA''])"

definition RuleB :: "Context \<Rightarrow> 'o \<Rightarrow> string list \<Rightarrow> error option \<times> string list" where
  "RuleB ctx x log = (Some (Denyf 7 ''no access'' []), log @ [''RuleB''])"

definition RuleC :: "Context \<Rightarrow> 'o \<Rightarrow> string list \<Rightarrow> error option \<times> string list" where
  "RuleC ctx x log = (Some Allow, log @ [''RuleC''])"

definition RuleNil :: "Context \<Rightarrow> 'o \<Rightarrow> string list \<Rightarrow> error option \<times> string list" where
  "RuleNil ctx x log = (None, log @ [''RuleNil''])"

definition RuleSkipAllow :: "Context \<Rightarrow> 'o \<Rightarrow> string list \<Rightarrow> error option \<times> string list" where
  "RuleSkipAllow ctx x log = (Some (Skipf 7 ''%w'' [ErrorOp Allow]), log @ [''RuleSkipAllow''])"

definition RuleDeny :: "Context \<Rightarrow> 'o \<Rightarrow> string list \<Rightarrow> error option \<times> string list" where
  "RuleDeny ctx x log = (Some Deny, log @ [''RuleDeny''])"

definition UserQuery :: Query where
  "UserQuery = \<lparr>query_type = ''*ent.UserQuery'', query_ptr = 64\<rparr>"

definition UserMutation :: Mutation where
  "UserMutation = \<lparr>mutation_type = ''*ent.UserMutation'', mutation_ptr = 72, mutation_Op = 1\<rparr>"

definition PetQuery :: Query where
  "PetQuery = \<lparr>query_type = ''*ent.PetQuery'', query_ptr = 96\<rparr>"

definition PetMutation :: Mutation where
  "PetMutation = \<lparr>mutation_type = ''*ent.PetMutation'', mutation_ptr = 104, mutation_Op = 2\<rparr>"

definition DeleteMutation :: Mutation where
  "DeleteMutation = \<lparr>mutation_type = ''*ent.UserMutation'', mutation_ptr = 80, mutation_Op = 8\<rparr>"

text \<open>A membership test to run \<open>OnMutationOperation\<close> with: an operation is a set of
  bits, and two operations meet when they share a bit.\<close>

definition Op_common :: "Op \<Rightarrow> Op \<Rightarrow> bool" where
  "Op_common i j = (and i j \<noteq> 0)"

subsection \<open>Notions the properties are stated with\<close>

text \<open>
  The contexts a program can build. The type \<open>decisionCtxKey\<close> is not exported, so
  outside the package a value is stored under another key, and under
  \<open>decisionCtxKey\<close> only by \<open>DecisionContext\<close>.
\<close>

inductive program_context :: "Context \<Rightarrow> bool" where
  Background: "program_context Background"
| WithValue: "program_context parent \<Longrightarrow> program_context (WithValue parent (OtherKey k) v)"
| DecisionContext: "program_context parent \<Longrightarrow> program_context (DecisionContext parent decision)"









section \<open>Properties\<close>

subsection \<open>Matching and the three decisions\<close>


lemma decisions_distinct:
  "errors_Is (Some Allow) (Some Allow)" "errors_Is (Some Deny) (Some Deny)"
  "errors_Is (Some Skip) (Some Skip)"
  "\<not> errors_Is (Some Allow) (Some Deny)" "\<not> errors_Is (Some Allow) (Some Skip)"
  "\<not> errors_Is (Some Deny) (Some Allow)" "\<not> errors_Is (Some Deny) (Some Skip)"
  "\<not> errors_Is (Some Skip) (Some Allow)" "\<not> errors_Is (Some Skip) (Some Deny)"
  by (simp_all add: errors_Is_def Allow_def Deny_def Skip_def)

lemma errors_Is_wrapped:
  "errors_Is (Some (WrapError a msg (Some e))) (Some Allow) = errors_Is (Some e) (Some Allow)"
  "errors_Is (Some (WrapError a msg (Some e))) (Some Deny) = errors_Is (Some e) (Some Deny)"
  "errors_Is (Some (WrapError a msg (Some e))) (Some Skip) = errors_Is (Some e) (Some Skip)"
  "errors_Is (Some (WrapErrors a msg es)) (Some Allow) = list_ex (\<lambda>e. errors_Is (Some e) (Some Allow)) es"
  "errors_Is (Some (WrapErrors a msg es)) (Some Deny) = list_ex (\<lambda>e. errors_Is (Some e) (Some Deny)) es"
  "errors_Is (Some (WrapErrors a msg es)) (Some Skip) = list_ex (\<lambda>e. errors_Is (Some e) (Some Skip)) es"
  by (simp_all add: errors_Is_def Allow_def Deny_def Skip_def)

lemma Denyf_no_access:
  "Denyf 7 ''no access'' [] = WrapError 7 (Sprintf ''no access: %w'' [ErrorOp Deny]) (Some Deny)"
  by code_simp

lemma Skipf_Allow:
  "Skipf 7 ''%w'' [ErrorOp Allow] =
   WrapErrors 7 (Sprintf ''%w: %w'' [ErrorOp Allow, ErrorOp Skip]) [Allow, Skip]"
  by code_simp

lemma no_decision_Background: "\<not> snd (decisionFromContext Background)"
  by (simp add: decisionFromContext_def)

subsection \<open>The loop over the rules\<close>

lemma EvalQuery_rules_append:
  "skipped pre ctx q s = Some s1 \<Longrightarrow>
   EvalQuery_rules (pre @ post) ctx q s = EvalQuery_rules post ctx q s1"
  by (induction pre arbitrary: s) (auto split: prod.splits if_splits)

lemma EvalMutation_rules_append:
  "skipped pre ctx m s = Some s1 \<Longrightarrow>
   EvalMutation_rules (pre @ post) ctx m s = EvalMutation_rules post ctx m s1"
  by (induction pre arbitrary: s) (auto split: prod.splits if_splits)

lemma EvalQuery_no_decision:
  "\<not> snd (decisionFromContext ctx) \<Longrightarrow> EvalQuery policy ctx q s = EvalQuery_rules policy ctx q s"
  by (cases "decisionFromContext ctx") (auto simp: EvalQuery_def)

lemma EvalMutation_no_decision:
  "\<not> snd (decisionFromContext ctx) \<Longrightarrow>
   EvalMutation policy ctx m s = EvalMutation_rules policy ctx m s"
  by (cases "decisionFromContext ctx") (auto simp: EvalMutation_def)

lemma EvalQuery_rules_never_Skip:
  "\<not> errors_Is (fst (EvalQuery_rules policy ctx q s)) (Some Skip)"
  by (induction policy arbitrary: s) (auto split: prod.splits)

lemma EvalMutation_rules_never_Skip:
  "\<not> errors_Is (fst (EvalMutation_rules policy ctx m s)) (Some Skip)"
  by (induction policy arbitrary: s) (auto split: prod.splits)

lemma all_skip_skipped:
  "\<forall>rule\<in>set rules. \<forall>t. fst (rule ctx x t) = None \<or> errors_Is (fst (rule ctx x t)) (Some Skip) \<Longrightarrow>
   skipped rules ctx x s = Some (run_all rules ctx x s)"
proof (induction rules arbitrary: s)
  case Nil
  then show ?case by (simp add: run_all_def)
next
  case (Cons rule rules)
  obtain d s' where r: "rule ctx x s = (d, s')" by (cases "rule ctx x s")
  have "d = None \<or> errors_Is d (Some Skip)"
    using Cons.prems r by (metis fst_conv list.set_intros(1))
  moreover have "skipped rules ctx x s' = Some (run_all rules ctx x s')"
    using Cons by simp
  ultimately show ?case using r by (auto simp: run_all_def)
qed

lemma EvalQuery_rules_skipped:
  "skipped policy ctx q s = Some s' \<Longrightarrow> EvalQuery_rules policy ctx q s = (None, s')"
  using EvalQuery_rules_append [of policy ctx q s s' "[]"] by simp

lemma EvalMutation_rules_skipped:
  "skipped policy ctx m s = Some s' \<Longrightarrow> EvalMutation_rules policy ctx m s = (None, s')"
  using EvalMutation_rules_append [of policy ctx m s s' "[]"] by simp

subsection \<open>Evaluation of a policy\<close>

text \<open>
  Claim C1. In a context without a cached decision, the first rule that returns an
  error which is neither \<open>Skip\<close> nor \<open>Allow\<close> under \<open>errors.Is\<close> ends \<open>EvalQuery\<close> and
  \<open>EvalMutation\<close>: the rules before it each returned \<open>nil\<close> or a \<open>Skip\<close>
  (\<open>skipped\<close>), the result is the very error the rule returned, and the state is
  the one that rule left, whatever rules follow: none of them ran.
\<close>

theorem Eval_first_denial:
  "\<not> snd (decisionFromContext ctx) \<Longrightarrow>
   \<not> errors_Is (Some e) (Some Skip) \<Longrightarrow> \<not> errors_Is (Some e) (Some Allow) \<Longrightarrow>
   (skipped pre ctx q s = Some s1 \<and> rule ctx q s1 = (Some e, s2) \<longrightarrow>
      EvalQuery (pre @ rule # post) ctx q s = (Some e, s2)) \<and>
   (skipped mpre ctx m t = Some t1 \<and> mrule ctx m t1 = (Some e, t2) \<longrightarrow>
      EvalMutation (mpre @ mrule # mpost) ctx m t = (Some e, t2))"
  by (simp add: EvalQuery_no_decision EvalMutation_no_decision EvalQuery_rules_append
      EvalMutation_rules_append)

text \<open>The scenario of the specification: \<open>RuleA\<close> skips, \<open>RuleB\<close> denies with
  \<open>Denyf("no access")\<close>, \<open>RuleC\<close> would allow. The result is the error of \<open>RuleB\<close> and
  the log holds \<open>RuleA\<close> and \<open>RuleB\<close> only.\<close>

theorem Eval_first_denial_witness:
  "EvalQuery [RuleA, RuleB, RuleC] Background UserQuery [] =
     (Some (Denyf 7 ''no access'' []), [''RuleA'', ''RuleB'']) \<and>
   EvalMutation [RuleA, RuleB, RuleC] Background UserMutation [] =
     (Some (Denyf 7 ''no access'' []), [''RuleA'', ''RuleB''])"
  using Eval_first_denial [of Background "Denyf 7 ''no access'' []"
      "[RuleA]" UserQuery "[]" "[''RuleA'']" RuleB "[''RuleA'', ''RuleB'']" "[RuleC]"
      "[RuleA]" UserMutation "[]" "[''RuleA'']" RuleB "[''RuleA'', ''RuleB'']" "[RuleC]"]
  by (simp add: no_decision_Background Denyf_no_access RuleA_def RuleB_def errors_Is_wrapped
      decisions_distinct)

text \<open>
  Claim C2. In a context without a cached decision, a policy with no rule returns
  \<open>nil\<close>, and so does a policy whose rules all return an error that is \<open>Skip\<close>, from
  \<open>EvalQuery\<close> and from \<open>EvalMutation\<close>.
\<close>

theorem Eval_empty_or_all_Skip:
  "\<not> snd (decisionFromContext ctx) \<Longrightarrow>
   EvalQuery [] ctx q s = (None, s) \<and> EvalMutation [] ctx m s = (None, s) \<and>
   ((\<forall>rule\<in>set policy. \<forall>t. errors_Is (fst (rule ctx q t)) (Some Skip)) \<longrightarrow>
      fst (EvalQuery policy ctx q s) = None) \<and>
   ((\<forall>rule\<in>set mpolicy. \<forall>t. errors_Is (fst (rule ctx m t)) (Some Skip)) \<longrightarrow>
      fst (EvalMutation mpolicy ctx m s) = None)"
proof -
  assume c: "\<not> snd (decisionFromContext ctx)"
  have q: "fst (EvalQuery policy ctx q s) = None"
    if "\<forall>rule\<in>set policy. \<forall>t. errors_Is (fst (rule ctx q t)) (Some Skip)"
    using all_skip_skipped [of policy ctx q s] that c
    by (simp add: EvalQuery_no_decision EvalQuery_rules_skipped)
  have m: "fst (EvalMutation mpolicy ctx m s) = None"
    if "\<forall>rule\<in>set mpolicy. \<forall>t. errors_Is (fst (rule ctx m t)) (Some Skip)"
    using all_skip_skipped [of mpolicy ctx m s] that c
    by (simp add: EvalMutation_no_decision EvalMutation_rules_skipped)
  from c q m show ?thesis
    by (simp add: EvalQuery_no_decision EvalMutation_no_decision)
qed

theorem Eval_empty_or_all_Skip_witness:
  "EvalQuery [] Background UserQuery ([] :: string list) = (None, []) \<and>
   EvalMutation [] Background UserMutation ([] :: string list) = (None, []) \<and>
   fst (EvalQuery [RuleA, RuleA] Background UserQuery []) = None \<and>
   fst (EvalMutation [RuleA, RuleA] Background UserMutation []) = None"
  using Eval_empty_or_all_Skip [of Background UserQuery "[]" UserMutation "[RuleA, RuleA]" "[RuleA, RuleA]"]
  by (simp add: no_decision_Background RuleA_def decisions_distinct)

text \<open>
  Claim C3, as stated, fails on an error that is both \<open>Skip\<close> and \<open>Allow\<close> under
  \<open>errors.Is\<close>: the switch asks for \<open>Skip\<close> first. \<open>Skipf("%w", Allow)\<close> is such an
  error. A rule returning it is the first whose result matches \<open>Allow\<close>, and the
  evaluation goes on to the next rule and returns its \<open>Deny\<close>.
\<close>

theorem Eval_Allow_and_Skip_counterexample:
  "errors_Is (fst (RuleSkipAllow Background UserQuery [])) (Some Allow) \<and>
   EvalQuery [RuleSkipAllow, RuleDeny] Background UserQuery [] =
     (Some Deny, [''RuleSkipAllow'', ''RuleDeny''])"
  by (simp add: EvalQuery_def decisionFromContext_def RuleSkipAllow_def RuleDeny_def Skipf_Allow
      errors_Is_wrapped decisions_distinct)

text \<open>
  Claim C3, amended. In a context without a cached decision, the first rule that
  returns an error which is \<open>Allow\<close> and is not \<open>Skip\<close> under \<open>errors.Is\<close> ends
  \<open>EvalQuery\<close> and \<open>EvalMutation\<close> with \<open>nil\<close>, in the state that rule left: no rule
  after it ran.
\<close>

theorem Eval_first_Allow:
  "\<not> snd (decisionFromContext ctx) \<Longrightarrow>
   \<not> errors_Is (Some e) (Some Skip) \<Longrightarrow> errors_Is (Some e) (Some Allow) \<Longrightarrow>
   (skipped pre ctx q s = Some s1 \<and> rule ctx q s1 = (Some e, s2) \<longrightarrow>
      EvalQuery (pre @ rule # post) ctx q s = (None, s2)) \<and>
   (skipped mpre ctx m t = Some t1 \<and> mrule ctx m t1 = (Some e, t2) \<longrightarrow>
      EvalMutation (mpre @ mrule # mpost) ctx m t = (None, t2))"
  by (simp add: EvalQuery_no_decision EvalMutation_no_decision EvalQuery_rules_append
      EvalMutation_rules_append)

theorem Eval_first_Allow_witness:
  "EvalQuery [RuleA, RuleC, RuleB] Background UserQuery [] = (None, [''RuleA'', ''RuleC'']) \<and>
   EvalMutation [RuleA, RuleC, RuleB] Background UserMutation [] = (None, [''RuleA'', ''RuleC''])"
  using Eval_first_Allow [of Background Allow
      "[RuleA]" UserQuery "[]" "[''RuleA'']" RuleC "[''RuleA'', ''RuleC'']" "[RuleB]"
      "[RuleA]" UserMutation "[]" "[''RuleA'']" RuleC "[''RuleA'', ''RuleC'']" "[RuleB]"]
  by (simp add: no_decision_Background RuleA_def RuleC_def decisions_distinct)

text \<open>
  Claim C4. When the context carries a decision, \<open>EvalQuery\<close> and \<open>EvalMutation\<close>
  return it and leave the state as it was, whatever the policy: no rule ran. A
  decision that is \<open>Allow\<close> under \<open>errors.Is\<close> is returned as \<open>nil\<close>, any other as
  the stored error itself.
\<close>

theorem Eval_cached_decision:
  "Value ctx decisionCtxKey = Some (ErrorValue e) \<Longrightarrow>
   EvalQuery policy ctx q s = (if errors_Is (Some e) (Some Allow) then None else Some e, s) \<and>
   EvalMutation mpolicy ctx m s = (if errors_Is (Some e) (Some Allow) then None else Some e, s)"
  by (simp add: EvalQuery_def EvalMutation_def decisionFromContext_def)

theorem Eval_cached_decision_witness:
  "EvalQuery [RuleB] (DecisionContext Background (Some Deny)) UserQuery [] = (Some Deny, []) \<and>
   EvalMutation [RuleB] (DecisionContext Background (Some Deny)) UserMutation [] = (Some Deny, []) \<and>
   EvalQuery [RuleB] (DecisionContext Background (Some Allow)) UserQuery [] = (None, []) \<and>
   EvalMutation [RuleB] (DecisionContext Background (Some Allow)) UserMutation [] = (None, [])"
  using Eval_cached_decision [of "DecisionContext Background (Some Deny)" Deny "[RuleB]" UserQuery "[]" "[RuleB]" UserMutation]
    Eval_cached_decision [of "DecisionContext Background (Some Allow)" Allow "[RuleB]" UserQuery "[]" "[RuleB]" UserMutation]
  by (simp add: DecisionContext_def decisions_distinct)

text \<open>
  Claim C10. A rule that returns \<open>nil\<close> is treated as one that returns \<open>Skip\<close>: in
  either case the evaluation goes on with the rules after it, from the state the
  rule left. A policy whose rules each return \<open>nil\<close> or a \<open>Skip\<close> runs them all and
  returns \<open>nil\<close>.
\<close>

theorem Eval_nil_like_Skip:
  "\<not> snd (decisionFromContext ctx) \<Longrightarrow>
   (fst (rule ctx q s) = None \<or> errors_Is (fst (rule ctx q s)) (Some Skip) \<longrightarrow>
      EvalQuery (rule # policy) ctx q s = EvalQuery policy ctx q (snd (rule ctx q s))) \<and>
   (fst (mrule ctx m s) = None \<or> errors_Is (fst (mrule ctx m s)) (Some Skip) \<longrightarrow>
      EvalMutation (mrule # mpolicy) ctx m s = EvalMutation mpolicy ctx m (snd (mrule ctx m s))) \<and>
   ((\<forall>r\<in>set policy. \<forall>t. fst (r ctx q t) = None \<or> errors_Is (fst (r ctx q t)) (Some Skip)) \<longrightarrow>
      EvalQuery policy ctx q s = (None, run_all policy ctx q s)) \<and>
   ((\<forall>r\<in>set mpolicy. \<forall>t. fst (r ctx m t) = None \<or> errors_Is (fst (r ctx m t)) (Some Skip)) \<longrightarrow>
      EvalMutation mpolicy ctx m s = (None, run_all mpolicy ctx m s))"
proof -
  assume c: "\<not> snd (decisionFromContext ctx)"
  have a: "EvalQuery (rule # policy) ctx q s = EvalQuery policy ctx q (snd (rule ctx q s))"
    if "fst (rule ctx q s) = None \<or> errors_Is (fst (rule ctx q s)) (Some Skip)"
    using that c by (cases "rule ctx q s") (auto simp: EvalQuery_no_decision)
  have b: "EvalMutation (mrule # mpolicy) ctx m s = EvalMutation mpolicy ctx m (snd (mrule ctx m s))"
    if "fst (mrule ctx m s) = None \<or> errors_Is (fst (mrule ctx m s)) (Some Skip)"
    using that c by (cases "mrule ctx m s") (auto simp: EvalMutation_no_decision)
  have q: "EvalQuery policy ctx q s = (None, run_all policy ctx q s)"
    if "\<forall>r\<in>set policy. \<forall>t. fst (r ctx q t) = None \<or> errors_Is (fst (r ctx q t)) (Some Skip)"
    using all_skip_skipped [of policy ctx q s] that c
    by (simp add: EvalQuery_no_decision EvalQuery_rules_skipped)
  have m: "EvalMutation mpolicy ctx m s = (None, run_all mpolicy ctx m s)"
    if "\<forall>r\<in>set mpolicy. \<forall>t. fst (r ctx m t) = None \<or> errors_Is (fst (r ctx m t)) (Some Skip)"
    using all_skip_skipped [of mpolicy ctx m s] that c
    by (simp add: EvalMutation_no_decision EvalMutation_rules_skipped)
  from a b q m show ?thesis by blast
qed

theorem Eval_nil_like_Skip_witness:
  "EvalQuery [RuleNil, RuleA, RuleNil] Background UserQuery [] =
     EvalQuery [RuleA, RuleNil] Background UserQuery [''RuleNil''] \<and>
   EvalQuery [RuleA, RuleNil] Background UserQuery [] = (None, [''RuleA'', ''RuleNil'']) \<and>
   EvalMutation [RuleA, RuleNil, RuleA] Background UserMutation [] =
     EvalMutation [RuleNil, RuleA] Background UserMutation [''RuleA''] \<and>
   EvalMutation [RuleNil, RuleA] Background UserMutation [] = (None, [''RuleNil'', ''RuleA''])"
  using Eval_nil_like_Skip [of Background RuleNil UserQuery "[]" "[RuleA, RuleNil]"
      RuleA UserMutation "[RuleNil, RuleA]"]
  by (simp add: no_decision_Background RuleA_def RuleNil_def decisions_distinct run_all_def)

subsection \<open>The decision context\<close>

lemma program_context_decision:
  "program_context ctx \<Longrightarrow> Value ctx decisionCtxKey = Some v \<Longrightarrow>
   \<exists>e. v = ErrorValue e \<and> \<not> errors_Is (Some e) (Some Skip)"
proof (induction rule: program_context.induct)
  case Background
  then show ?case by simp
next
  case (WithValue parent k v')
  then show ?case by simp
next
  case (DecisionContext parent decision)
  then show ?case
    by (cases decision) (auto simp: DecisionContext_def split: if_splits)
qed

lemma decisionFromContext_never_Skip:
  assumes "program_context ctx"
  shows "\<not> errors_Is (fst (decisionFromContext ctx)) (Some Skip)"
proof (cases "Value ctx decisionCtxKey")
  case None
  then show ?thesis by (simp add: decisionFromContext_def)
next
  case (Some v)
  then obtain e where "v = ErrorValue e" "\<not> errors_Is (Some e) (Some Skip)"
    using program_context_decision [OF assms] by blast
  with Some show ?thesis by (simp add: decisionFromContext_def)
qed

text \<open>
  Claim C8. The result of \<open>EvalQuery\<close> and of \<open>EvalMutation\<close> is never \<open>Skip\<close> under
  \<open>errors.Is\<close>, for every policy, operation and state and every context a program
  can build, those made by \<open>DecisionContext\<close> among them. A policy whose rules all
  skip, evaluated without a cached decision, returns \<open>nil\<close>.
\<close>

theorem Eval_never_Skip:
  "program_context ctx \<Longrightarrow>
   \<not> errors_Is (fst (EvalQuery policy ctx q s)) (Some Skip) \<and>
   \<not> errors_Is (fst (EvalMutation mpolicy ctx m t)) (Some Skip) \<and>
   (\<not> snd (decisionFromContext ctx) \<and> skipped policy ctx q s = Some s' \<longrightarrow>
      EvalQuery policy ctx q s = (None, s')) \<and>
   (\<not> snd (decisionFromContext ctx) \<and> skipped mpolicy ctx m t = Some t' \<longrightarrow>
      EvalMutation mpolicy ctx m t = (None, t'))"
proof -
  assume pc: "program_context ctx"
  obtain d ok where dc: "decisionFromContext ctx = (d, ok)" by (cases "decisionFromContext ctx")
  have d: "\<not> errors_Is d (Some Skip)"
    using decisionFromContext_never_Skip [OF pc] dc by simp
  have 1: "\<not> errors_Is (fst (EvalQuery policy ctx q s)) (Some Skip)"
    using dc d EvalQuery_rules_never_Skip [of policy ctx q s]
    by (cases ok) (simp_all add: EvalQuery_def)
  have 2: "\<not> errors_Is (fst (EvalMutation mpolicy ctx m t)) (Some Skip)"
    using dc d EvalMutation_rules_never_Skip [of mpolicy ctx m t]
    by (cases ok) (simp_all add: EvalMutation_def)
  show ?thesis
    using 1 2 by (simp add: EvalQuery_no_decision EvalMutation_no_decision
        EvalQuery_rules_skipped EvalMutation_rules_skipped)
qed

theorem Eval_never_Skip_witness:
  "program_context (DecisionContext (WithValue Background (OtherKey 1) (OtherValue 5)) (Some Skip)) \<and>
   EvalQuery [RuleA, RuleA] (DecisionContext (WithValue Background (OtherKey 1) (OtherValue 5)) (Some Skip))
     UserQuery [] = (None, [''RuleA'', ''RuleA'']) \<and>
   EvalMutation [RuleA] (DecisionContext (WithValue Background (OtherKey 1) (OtherValue 5)) (Some Skip))
     UserMutation [] = (None, [''RuleA''])"
proof -
  let ?ctx = "DecisionContext (WithValue Background (OtherKey 1) (OtherValue 5)) (Some Skip)"
  have pc: "program_context ?ctx"
    by (intro program_context.intros)
  have nd: "\<not> snd (decisionFromContext ?ctx)"
    by (simp add: DecisionContext_def decisionFromContext_def decisions_distinct)
  show ?thesis
    using pc nd Eval_never_Skip [OF pc, of "[RuleA, RuleA]" UserQuery "[]" "[RuleA]" UserMutation "[]"
        "[''RuleA'', ''RuleA'']" "[''RuleA'']"]
    by (simp add: RuleA_def decisions_distinct)
qed

text \<open>
  Claim C9. \<open>DecisionContext\<close> returns its parent when the decision is \<open>nil\<close> or is
  \<open>Skip\<close> under \<open>errors.Is\<close>, and otherwise derives a context that carries the
  decision under \<open>decisionCtxKey\<close>. Read back by \<open>decisionFromContext\<close>, a decision
  that is \<open>Allow\<close> comes out as \<open>nil\<close> and any other, \<open>Deny\<close> among them, as the
  stored error.
\<close>

theorem DecisionContext_definitive:
  "(decision = None \<or> errors_Is decision (Some Skip) \<longrightarrow> DecisionContext parent decision = parent) \<and>
   (\<not> errors_Is (Some d) (Some Skip) \<longrightarrow>
      DecisionContext parent (Some d) = WithValue parent decisionCtxKey (ErrorValue d) \<and>
      decisionFromContext (DecisionContext parent (Some d)) =
        (if errors_Is (Some d) (Some Allow) then None else Some d, True)) \<and>
   decisionFromContext (DecisionContext parent (Some Allow)) = (None, True) \<and>
   decisionFromContext (DecisionContext parent (Some Deny)) = (Some Deny, True)"
  by (cases decision) (auto simp: DecisionContext_def decisionFromContext_def decisions_distinct)

theorem DecisionContext_definitive_witness:
  "DecisionContext Background None = Background \<and>
   DecisionContext Background (Some Skip) = Background \<and>
   DecisionContext Background (Some (Denyf 7 ''no access'' [])) =
     WithValue Background decisionCtxKey (ErrorValue (Denyf 7 ''no access'' [])) \<and>
   decisionFromContext (DecisionContext Background (Some (Denyf 7 ''no access'' []))) =
     (Some (Denyf 7 ''no access'' []), True)"
  using DecisionContext_definitive [of None Background "Denyf 7 ''no access'' []"]
    DecisionContext_definitive [of "Some Skip" Background "Denyf 7 ''no access'' []"]
  by (simp add: Denyf_no_access errors_Is_wrapped decisions_distinct)

subsection \<open>Rules filtered by operation\<close>

text \<open>
  Claim C6. The rule made by \<open>OnMutationOperation(rule, op)\<close> returns \<open>Skip\<close> and
  leaves the state as it was when \<open>m.Op().Is(op)\<close> is false, so \<open>rule\<close> did not run;
  when it is true the decision and the state are those of \<open>rule\<close>. This holds for
  every \<open>Is\<close>.
\<close>

theorem OnMutationOperation_filters:
  "(\<not> Op_Is (mutation_Op m) op \<longrightarrow>
      OnMutationOperation Op_Is rule op ctx m s = (Some Skip, s)) \<and>
   (Op_Is (mutation_Op m) op \<longrightarrow>
      OnMutationOperation Op_Is rule op ctx m s = rule ctx m s)"
  by (simp add: OnMutationOperation_def MutationRuleFunc_EvalMutation_def)

theorem OnMutationOperation_filters_witness:
  "OnMutationOperation Op_common RuleDeny 8 Background UserMutation [] = (Some Skip, []) \<and>
   OnMutationOperation Op_common RuleDeny 8 Background DeleteMutation [] =
     (Some Deny, [''RuleDeny''])"
  using OnMutationOperation_filters [of Op_common UserMutation 8 RuleDeny Background "[]"]
    OnMutationOperation_filters [of Op_common DeleteMutation 8 RuleDeny Background "[]"]
  by (simp add: Op_common_def UserMutation_def DeleteMutation_def RuleDeny_def)

subsection \<open>Formatted decisions\<close>

text \<open>Every index the scan records is the index of an operand.\<close>

lemma argNumber_wrappedErrs: "wrappedErrs (fst (argNumber p f n)) = wrappedErrs p"
  by (auto simp: argNumber_def split: list.splits prod.splits)

lemma width_part_wrappedErrs: "wrappedErrs (fst (width_part p f n)) = wrappedErrs p"
  by (auto simp: width_part_def split: list.splits prod.splits)

lemma precision_part_wrappedErrs: "wrappedErrs (fst (precision_part p f n)) = wrappedErrs p"
proof (cases f)
  case Nil
  then show ?thesis by (simp add: precision_part_def)
next
  case (Cons c cs)
  obtain p1 cs1 where a: "argNumber (if afterIndex p then p\<lparr>goodArgNum := False\<rparr> else p) cs n = (p1, cs1)"
    by (cases "argNumber (if afterIndex p then p\<lparr>goodArgNum := False\<rparr> else p) cs n")
  have "wrappedErrs p1 = wrappedErrs p"
    using argNumber_wrappedErrs [of "if afterIndex p then p\<lparr>goodArgNum := False\<rparr> else p" cs n] a
    by (simp split: if_splits)
  with Cons a show ?thesis by (auto simp: precision_part_def split: list.splits)
qed

lemma verb_part_bound:
  "set (wrappedErrs p) \<subseteq> {..<n} \<Longrightarrow> set (wrappedErrs (fst (verb_part p f n))) \<subseteq> {..<n}"
  by (auto simp: verb_part_def split: list.splits)

lemma complex_directive_bound:
  assumes "set (wrappedErrs p) \<subseteq> {..<n}"
  shows "set (wrappedErrs (fst (complex_directive p f n))) \<subseteq> {..<n}"
proof -
  obtain p1 f1 where a: "argNumber p f n = (p1, f1)" by (cases "argNumber p f n")
  obtain p2 f2 where b: "width_part p1 f1 n = (p2, f2)" by (cases "width_part p1 f1 n")
  obtain p3 f3 where c: "precision_part p2 f2 n = (p3, f3)" by (cases "precision_part p2 f2 n")
  obtain p4 f4 where d: "(if \<not> afterIndex p3 then argNumber p3 f3 n else (p3, f3)) = (p4, f4)"
    by (cases "(if \<not> afterIndex p3 then argNumber p3 f3 n else (p3, f3))")
  have "wrappedErrs p1 = wrappedErrs p" using argNumber_wrappedErrs [of p f n] a by simp
  moreover have "wrappedErrs p2 = wrappedErrs p1" using width_part_wrappedErrs [of p1 f1 n] b by simp
  moreover have "wrappedErrs p3 = wrappedErrs p2" using precision_part_wrappedErrs [of p2 f2 n] c by simp
  moreover have "wrappedErrs p4 = wrappedErrs p3"
    using argNumber_wrappedErrs [of p3 f3 n] d by (auto split: if_splits)
  ultimately have "set (wrappedErrs p4) \<subseteq> {..<n}" using assms by simp
  then have "set (wrappedErrs (fst (verb_part p4 f4 n))) \<subseteq> {..<n}" by (rule verb_part_bound)
  then show ?thesis using a b c d by (simp add: complex_directive_def)
qed

lemma directive_bound:
  assumes "set (wrappedErrs p) \<subseteq> {..<n}"
  shows "set (wrappedErrs (fst (directive p f n))) \<subseteq> {..<n}"
proof -
  have g: "set (wrappedErrs (p\<lparr>goodArgNum := True\<rparr>)) \<subseteq> {..<n}" using assms by simp
  show ?thesis
    unfolding directive_def
    using assms complex_directive_bound [OF g]
    by (auto split: list.splits)
qed

lemma doPrintf_wrappedErrs_bound:
  "set (wrappedErrs p) \<subseteq> {..<n} \<Longrightarrow> set (wrappedErrs (doPrintf f n p)) \<subseteq> {..<n}"
proof (induction f n p rule: doPrintf.induct)
  case (1 numArgs p)
  then show ?case by (simp add: doPrintf.simps)
next
  case (2 c cs numArgs p)
  show ?case
  proof (cases "c \<noteq> CHR ''%''")
    case True
    with 2 show ?thesis by (simp add: doPrintf.simps)
  next
    case False
    obtain p' rest where d: "directive p cs numArgs = (p', rest)" by (cases "directive p cs numArgs")
    have "set (wrappedErrs p') \<subseteq> {..<numArgs}"
      using directive_bound [OF "2.prems", of cs] d by simp
    then have "set (wrappedErrs (doPrintf rest numArgs p')) \<subseteq> {..<numArgs}"
      using "2.IH"(2) [OF _ d [symmetric]] False by simp
    with False d show ?thesis by (simp add: doPrintf.simps)
  qed
qed

text \<open>Text without \<open>%\<close>, a verb alone, and the \<open>: %w\<close> that \<open>Df\<close> appends.\<close>

lemma doPrintf_text: "CHR ''%'' \<notin> set t \<Longrightarrow> doPrintf (t @ g) n p = doPrintf g n p"
  by (induction t) (auto simp: doPrintf.simps)

lemma complex_directive_verb:
  assumes "\<not> is_digit d" "d \<noteq> CHR ''[''" "d \<noteq> CHR ''*''" "d \<noteq> CHR ''.''"
  shows "complex_directive p (d # cs) n = verb_part (p\<lparr>afterIndex := False\<rparr>) (d # cs) n"
  using assms
  by (simp add: complex_directive_def argNumber_def width_part_def precision_part_def
      parsenum_def)

lemma doPrintf_wrap_suffix:
  "argNum p < n \<Longrightarrow>
   doPrintf '': %w'' n p =
     p\<lparr>goodArgNum := True, wrappedErrs := wrappedErrs p @ [argNum p], argNum := argNum p + 1\<rparr>"
  by (simp add: doPrintf.simps directive_def is_flag_def is_lower_def)























subsection \<open>The adapters of a node\<close>

lemma doPrintf_unexpected_query:
  assumes "CHR ''%'' \<notin> set ty"
  shows "doPrintf (''ent/privacy: unexpected query type %T, expect '' @ ty @ '': %w'') 2 newPrinter =
     \<lparr>argNum = 2, afterIndex = False, reordered = False, goodArgNum = True, wrappedErrs = [1]\<rparr>"
proof -
  have "doPrintf (''ent/privacy: unexpected query type %T, expect '' @ ty @ '': %w'') 2 newPrinter =
     doPrintf (ty @ '': %w'') 2
       \<lparr>argNum = 1, afterIndex = False, reordered = False, goodArgNum = True, wrappedErrs = []\<rparr>"
    by (simp add: doPrintf.simps newPrinter_def directive_def is_flag_def is_lower_def is_digit_def
        complex_directive_verb verb_part_def)
  also have "\<dots> = doPrintf '': %w'' 2
       \<lparr>argNum = 1, afterIndex = False, reordered = False, goodArgNum = True, wrappedErrs = []\<rparr>"
    using assms by (rule doPrintf_text)
  also have "\<dots> = \<lparr>argNum = 2, afterIndex = False, reordered = False, goodArgNum = True, wrappedErrs = [1]\<rparr>"
    by (simp add: doPrintf_wrap_suffix)
  finally show ?thesis .
qed

lemma doPrintf_unexpected_mutation:
  assumes "CHR ''%'' \<notin> set ty"
  shows "doPrintf (''ent/privacy: unexpected mutation type %T, expect '' @ ty @ '': %w'') 2 newPrinter =
     \<lparr>argNum = 2, afterIndex = False, reordered = False, goodArgNum = True, wrappedErrs = [1]\<rparr>"
proof -
  have "doPrintf (''ent/privacy: unexpected mutation type %T, expect '' @ ty @ '': %w'') 2 newPrinter =
     doPrintf (ty @ '': %w'') 2
       \<lparr>argNum = 1, afterIndex = False, reordered = False, goodArgNum = True, wrappedErrs = []\<rparr>"
    by (simp add: doPrintf.simps newPrinter_def directive_def is_flag_def is_lower_def is_digit_def
        complex_directive_verb verb_part_def)
  also have "\<dots> = doPrintf '': %w'' 2
       \<lparr>argNum = 1, afterIndex = False, reordered = False, goodArgNum = True, wrappedErrs = []\<rparr>"
    using assms by (rule doPrintf_text)
  also have "\<dots> = \<lparr>argNum = 2, afterIndex = False, reordered = False, goodArgNum = True, wrappedErrs = [1]\<rparr>"
    by (simp add: doPrintf_wrap_suffix)
  finally show ?thesis .
qed

lemma Denyf_unexpected_query:
  assumes "CHR ''%'' \<notin> set ty"
  shows "Denyf ptr (''ent/privacy: unexpected query type %T, expect '' @ ty) [QueryOp q] =
     WrapError ptr
       (Sprintf (''ent/privacy: unexpected query type %T, expect '' @ ty @ '': %w'')
          [QueryOp q, ErrorOp Deny])
       (Some Deny)"
proof -
  have n: "length ([QueryOp q] @ [ErrorOp Deny]) = 2" by simp
  show ?thesis
    unfolding Denyf_def Errorf_def n append_assoc doPrintf_unexpected_query [OF assms]
    by (simp add: operand_error_def)
qed

lemma Denyf_unexpected_mutation:
  assumes "CHR ''%'' \<notin> set ty"
  shows "Denyf ptr (''ent/privacy: unexpected mutation type %T, expect '' @ ty) [MutationOp m] =
     WrapError ptr
       (Sprintf (''ent/privacy: unexpected mutation type %T, expect '' @ ty @ '': %w'')
          [MutationOp m, ErrorOp Deny])
       (Some Deny)"
proof -
  have n: "length ([MutationOp m] @ [ErrorOp Deny]) = 2" by simp
  show ?thesis
    unfolding Denyf_def Errorf_def n append_assoc doPrintf_unexpected_mutation [OF assms]
    by (simp add: operand_error_def)
qed

lemma node_type_no_percent:
  "CHR ''%'' \<notin> set pkg \<Longrightarrow> CHR ''%'' \<notin> set name \<Longrightarrow> CHR ''%'' \<notin> set (node_type pkg name)"
  by (simp add: node_type_def)

text \<open>
  Claim C5. The adapters generated for a node, whose type \<open>$type\<close> is
  \<open>*pkg.Name\<close> with a package and a name free of \<open>%\<close> (they are Go identifiers):
  given an operation of another dynamic type, the adapter returns an error that
  wraps \<open>Deny\<close>, whose message is the format naming \<open>$type\<close> printed with the
  operation as the operand of \<open>%T\<close>, and the state is as it was, so the user's
  function did not run; given an operation of type \<open>$type\<close>, it returns what the
  user's function returns.
\<close>

theorem NodeRuleFunc_type_gate:
  assumes "CHR ''%'' \<notin> set pkg" and "CHR ''%'' \<notin> set name"
  shows
  "(query_type q \<noteq> node_type pkg name \<longrightarrow>
      NodeQueryRuleFunc_EvalQuery (node_type pkg name) ptr f ctx q s =
        (Some (WrapError ptr
                 (Sprintf (''ent/privacy: unexpected query type %T, expect '' @ node_type pkg name @ '': %w'')
                    [QueryOp q, ErrorOp Deny])
                 (Some Deny)), s) \<and>
      errors_Is (fst (NodeQueryRuleFunc_EvalQuery (node_type pkg name) ptr f ctx q s)) (Some Deny)) \<and>
   (query_type q = node_type pkg name \<longrightarrow>
      NodeQueryRuleFunc_EvalQuery (node_type pkg name) ptr f ctx q s = f ctx q s) \<and>
   (mutation_type m \<noteq> node_type pkg name \<longrightarrow>
      NodeMutationRuleFunc_EvalMutation (node_type pkg name) ptr g ctx m s =
        (Some (WrapError ptr
                 (Sprintf (''ent/privacy: unexpected mutation type %T, expect '' @ node_type pkg name @ '': %w'')
                    [MutationOp m, ErrorOp Deny])
                 (Some Deny)), s) \<and>
      errors_Is (fst (NodeMutationRuleFunc_EvalMutation (node_type pkg name) ptr g ctx m s)) (Some Deny)) \<and>
   (mutation_type m = node_type pkg name \<longrightarrow>
      NodeMutationRuleFunc_EvalMutation (node_type pkg name) ptr g ctx m s = g ctx m s)"
proof -
  have np: "CHR ''%'' \<notin> set (node_type pkg name)"
    using assms by (rule node_type_no_percent)
  have dq: "query_type q \<noteq> node_type pkg name \<Longrightarrow>
      NodeQueryRuleFunc_EvalQuery (node_type pkg name) ptr f ctx q s =
        (Some (WrapError ptr
                 (Sprintf (''ent/privacy: unexpected query type %T, expect '' @ node_type pkg name @ '': %w'')
                    [QueryOp q, ErrorOp Deny])
                 (Some Deny)), s)"
    unfolding NodeQueryRuleFunc_EvalQuery_def Denyf_unexpected_query [OF np] by simp
  have dm: "mutation_type m \<noteq> node_type pkg name \<Longrightarrow>
      NodeMutationRuleFunc_EvalMutation (node_type pkg name) ptr g ctx m s =
        (Some (WrapError ptr
                 (Sprintf (''ent/privacy: unexpected mutation type %T, expect '' @ node_type pkg name @ '': %w'')
                    [MutationOp m, ErrorOp Deny])
                 (Some Deny)), s)"
    unfolding NodeMutationRuleFunc_EvalMutation_def Denyf_unexpected_mutation [OF np] by simp
  have iq: "errors_Is (fst (NodeQueryRuleFunc_EvalQuery (node_type pkg name) ptr f ctx q s)) (Some Deny)"
    if h: "query_type q \<noteq> node_type pkg name"
    using dq [OF h] by (simp add: errors_Is_wrapped decisions_distinct)
  have im: "errors_Is (fst (NodeMutationRuleFunc_EvalMutation (node_type pkg name) ptr g ctx m s)) (Some Deny)"
    if h: "mutation_type m \<noteq> node_type pkg name"
    using dm [OF h] by (simp add: errors_Is_wrapped decisions_distinct)
  have eq: "query_type q = node_type pkg name \<Longrightarrow>
      NodeQueryRuleFunc_EvalQuery (node_type pkg name) ptr f ctx q s = f ctx q s"
    by (simp add: NodeQueryRuleFunc_EvalQuery_def)
  have em: "mutation_type m = node_type pkg name \<Longrightarrow>
      NodeMutationRuleFunc_EvalMutation (node_type pkg name) ptr g ctx m s = g ctx m s"
    by (simp add: NodeMutationRuleFunc_EvalMutation_def)
  from dq dm iq im eq em show ?thesis by blast
qed

theorem NodeRuleFunc_type_gate_witness:
  "NodeQueryRuleFunc_EvalQuery ''*ent.UserQuery'' 7 RuleC Background PetQuery [] =
     (Some (WrapError 7
              (Sprintf ''ent/privacy: unexpected query type %T, expect *ent.UserQuery: %w''
                 [QueryOp PetQuery, ErrorOp Deny])
              (Some Deny)), []) \<and>
   NodeQueryRuleFunc_EvalQuery ''*ent.UserQuery'' 7 RuleC Background UserQuery [] =
     (Some Allow, [''RuleC'']) \<and>
   NodeMutationRuleFunc_EvalMutation ''*ent.UserMutation'' 7 RuleC Background PetMutation [] =
     (Some (WrapError 7
              (Sprintf ''ent/privacy: unexpected mutation type %T, expect *ent.UserMutation: %w''
                 [MutationOp PetMutation, ErrorOp Deny])
              (Some Deny)), []) \<and>
   NodeMutationRuleFunc_EvalMutation ''*ent.UserMutation'' 7 RuleC Background UserMutation [] =
     (Some Allow, [''RuleC''])"
  using NodeRuleFunc_type_gate [of "''ent''" "''UserQuery''" PetQuery 7 RuleC Background "[]"
      PetMutation RuleC]
    NodeRuleFunc_type_gate [of "''ent''" "''UserQuery''" UserQuery 7 RuleC Background "[]"
      PetMutation RuleC]
    NodeRuleFunc_type_gate [of "''ent''" "''UserMutation''" PetQuery 7 RuleC Background "[]"
      PetMutation RuleC]
    NodeRuleFunc_type_gate [of "''ent''" "''UserMutation''" PetQuery 7 RuleC Background "[]"
      UserMutation RuleC]
  by (simp add: node_type_def PetQuery_def UserQuery_def PetMutation_def UserMutation_def RuleC_def)

end
